theory Spec2Isabelle
  imports Complex_Main "HOL-Library.Word" "HOL-Library.Sublist"
begin

section \<open>JavaScript strings\<close>

text \<open>
  The script \<^verbatim>\<open>scripts/safari-post-convert.ts\<close> works on JavaScript strings, which are
  sequences of UTF-16 code units. A code unit is a 16-bit word; an ASCII literal of the
  source is written \<open>js ''...''\<close>. The characters that cannot stand in a literal here are
  given by their code: tab 9, line feed 10, double quote 34.
\<close>

type_synonym cu = "16 word"
type_synonym jsstring = "cu list"

definition js :: "string \<Rightarrow> jsstring" where
  "js s = map of_char s"

abbreviation TAB :: cu where "TAB \<equiv> 9"
abbreviation NL :: cu where "NL \<equiv> 10"

definition quoted :: "jsstring \<Rightarrow> jsstring" where
  "quoted s = 34 # s @ [34]"

text \<open>The lines of a template literal: every line of the source ends with a line feed.\<close>

definition template_lines :: "jsstring list \<Rightarrow> jsstring" where
  "template_lines ls = concat (map (\<lambda>l. l @ [NL]) ls)"

text \<open>\<^verbatim>\<open>String.prototype.includes\<close>: the pattern occurs at some position.\<close>

fun js_includes :: "jsstring \<Rightarrow> jsstring \<Rightarrow> bool" where
  "js_includes [] m = (m = [])"
| "js_includes (x # xs) m = (prefix m (x # xs) \<or> js_includes xs m)"

text \<open>
  \<^verbatim>\<open>String.prototype.replace\<close> with a string pattern: the first occurrence only is
  replaced. (A replacement string is read for \<^verbatim>\<open>$\<close> patterns; the one replacement used
  with a string pattern holds no \<^verbatim>\<open>$\<close>, so it is inserted as it is.)
\<close>

fun replace_str :: "jsstring \<Rightarrow> jsstring \<Rightarrow> jsstring \<Rightarrow> jsstring" where
  "replace_str pat rep [] = (if pat = [] then rep else [])"
| "replace_str pat rep (x # xs) =
     (if prefix pat (x # xs) then rep @ drop (length pat) (x # xs)
      else x # replace_str pat rep xs)"

text \<open>The number of positions of \<open>s\<close> at which \<open>m\<close> occurs.\<close>

fun occurrences :: "jsstring \<Rightarrow> jsstring \<Rightarrow> nat" where
  "occurrences [] m = (if m = [] then 1 else 0)"
| "occurrences (x # xs) m = (if prefix m (x # xs) then 1 else 0) + occurrences xs m"

section \<open>UTF-8\<close>

text \<open>
  The script reads and writes its files with the encoding \<^verbatim>\<open>'utf-8'\<close>, so the bytes of a
  file and the string the script works on are related by the UTF-8 codec of the
  platform. Writing encodes the code points of the string, a surrogate that is not part
  of a pair being written as U+FFFD. Reading decodes the bytes; every maximal ill-formed
  part of the input becomes one U+FFFD, a byte order mark is kept, and a code point above
  U+FFFF becomes a surrogate pair.
\<close>

type_synonym byte = "8 word"

definition high_surrogate :: "cu \<Rightarrow> bool" where
  "high_surrogate c \<longleftrightarrow> 0xD800 \<le> c \<and> c \<le> 0xDBFF"

definition low_surrogate :: "cu \<Rightarrow> bool" where
  "low_surrogate c \<longleftrightarrow> 0xDC00 \<le> c \<and> c \<le> 0xDFFF"

definition utf8_bytes :: "nat \<Rightarrow> byte list" where
  "utf8_bytes cp =
     (if cp < 0x80 then [of_nat cp]
      else if cp < 0x800 then [of_nat (0xC0 + cp div 64), of_nat (0x80 + cp mod 64)]
      else if cp < 0x10000 then
        [of_nat (0xE0 + cp div 4096), of_nat (0x80 + cp div 64 mod 64), of_nat (0x80 + cp mod 64)]
      else
        [of_nat (0xF0 + cp div 262144), of_nat (0x80 + cp div 4096 mod 64),
         of_nat (0x80 + cp div 64 mod 64), of_nat (0x80 + cp mod 64)])"

fun utf8_encode :: "jsstring \<Rightarrow> byte list" where
  "utf8_encode [] = []"
| "utf8_encode [c] =
     (if high_surrogate c \<or> low_surrogate c then utf8_bytes 0xFFFD else utf8_bytes (unat c))"
| "utf8_encode (c # d # r) =
     (if high_surrogate c \<and> low_surrogate d then
        utf8_bytes (0x10000 + (unat c - 0xD800) * 0x400 + (unat d - 0xDC00)) @ utf8_encode r
      else if high_surrogate c \<or> low_surrogate c then utf8_bytes 0xFFFD @ utf8_encode (d # r)
      else utf8_bytes (unat c) @ utf8_encode (d # r))"

definition utf16 :: "nat \<Rightarrow> jsstring" where
  "utf16 cp =
     (if cp < 0x10000 then [of_nat cp]
      else [of_nat (0xD800 + (cp - 0x10000) div 0x400), of_nat (0xDC00 + (cp - 0x10000) mod 0x400)])"

definition cont :: "byte \<Rightarrow> bool" where
  "cont b \<longleftrightarrow> 0x80 \<le> b \<and> b \<le> 0xBF"

definition second_ok :: "byte \<Rightarrow> byte \<Rightarrow> bool" where
  "second_ok b c \<longleftrightarrow>
     (if b = 0xE0 then 0xA0 else if b = 0xF0 then 0x90 else 0x80) \<le> c
     \<and> c \<le> (if b = 0xED then 0x9F else if b = 0xF4 then 0x8F else 0xBF)"

definition cp2 :: "byte \<Rightarrow> byte \<Rightarrow> nat" where
  "cp2 b c = (unat b - 0xC0) * 64 + (unat c - 0x80)"

definition cp3 :: "byte \<Rightarrow> byte \<Rightarrow> byte \<Rightarrow> nat" where
  "cp3 b c d = (unat b - 0xE0) * 4096 + (unat c - 0x80) * 64 + (unat d - 0x80)"

definition cp4 :: "byte \<Rightarrow> byte \<Rightarrow> byte \<Rightarrow> byte \<Rightarrow> nat" where
  "cp4 b c d e =
     (unat b - 0xF0) * 262144 + (unat c - 0x80) * 4096 + (unat d - 0x80) * 64 + (unat e - 0x80)"

text \<open>
  The decoder: a lead byte announces one, two or three continuation bytes, the first of
  which is restricted further after \<^verbatim>\<open>E0\<close>, \<^verbatim>\<open>ED\<close>, \<^verbatim>\<open>F0\<close> and \<^verbatim>\<open>F4\<close>; a byte that cannot continue the
  sequence ends it with U+FFFD and is read again as the start of the next one.
\<close>

fun utf8_decode :: "byte list \<Rightarrow> jsstring" where
  "utf8_decode [] = []"
| "utf8_decode (b # bs) =
     (if b < 0x80 then ucast b # utf8_decode bs
      else if 0xC2 \<le> b \<and> b \<le> 0xDF then
        (case bs of
           [] \<Rightarrow> [0xFFFD]
         | c # r \<Rightarrow>
             if cont c then utf16 (cp2 b c) @ utf8_decode r else 0xFFFD # utf8_decode bs)
      else if 0xE0 \<le> b \<and> b \<le> 0xEF then
        (case bs of
           [] \<Rightarrow> [0xFFFD]
         | c # r \<Rightarrow>
             if second_ok b c then
               (case r of
                  [] \<Rightarrow> [0xFFFD]
                | d # r' \<Rightarrow>
                    if cont d then utf16 (cp3 b c d) @ utf8_decode r' else 0xFFFD # utf8_decode r)
             else 0xFFFD # utf8_decode bs)
      else if 0xF0 \<le> b \<and> b \<le> 0xF4 then
        (case bs of
           [] \<Rightarrow> [0xFFFD]
         | c # r \<Rightarrow>
             if second_ok b c then
               (case r of
                  [] \<Rightarrow> [0xFFFD]
                | d # r' \<Rightarrow>
                    if cont d then
                      (case r' of
                         [] \<Rightarrow> [0xFFFD]
                       | e # r'' \<Rightarrow>
                           if cont e then utf16 (cp4 b c d e) @ utf8_decode r''
                           else 0xFFFD # utf8_decode r')
                    else 0xFFFD # utf8_decode r)
             else 0xFFFD # utf8_decode bs)
      else 0xFFFD # utf8_decode bs)"

declare utf8_decode.simps(2) [simp del]

text \<open>Well-formed UTF-8: the input on which the decoder never substitutes U+FFFD.\<close>

fun utf8_valid :: "byte list \<Rightarrow> bool" where
  "utf8_valid [] = True"
| "utf8_valid (b # bs) =
     (if b < 0x80 then utf8_valid bs
      else if 0xC2 \<le> b \<and> b \<le> 0xDF then
        (case bs of c # r \<Rightarrow> cont c \<and> utf8_valid r | [] \<Rightarrow> False)
      else if 0xE0 \<le> b \<and> b \<le> 0xEF then
        (case bs of c # d # r \<Rightarrow> second_ok b c \<and> cont d \<and> utf8_valid r | _ \<Rightarrow> False)
      else if 0xF0 \<le> b \<and> b \<le> 0xF4 then
        (case bs of c # d # e # r \<Rightarrow> second_ok b c \<and> cont d \<and> cont e \<and> utf8_valid r | _ \<Rightarrow> False)
      else False)"

section \<open>Regular expressions\<close>

text \<open>
  The class \<^verbatim>\<open>\s\<close> of ECMAScript: the white space and line terminator code units.
\<close>

definition is_space :: "cu \<Rightarrow> bool" where
  "is_space c =
     (c \<in> {9, 10, 11, 12, 13, 32, 160, 5760, 8232, 8233, 8239, 8287, 12288, 65279}
      \<or> (8192 \<le> c \<and> c \<le> 8202))"

text \<open>
  The four patterns of the script are sequences of capture groups, and a group is a
  sequence of literals, of \<^verbatim>\<open>\s*\<close> (\<open>Spaces 0\<close>) or \<^verbatim>\<open>\s+\<close> (\<open>Spaces 1\<close>), and of
  alternatives of literals.
\<close>

datatype atom = Lit jsstring | Spaces nat | Alt "jsstring list"

type_synonym regex = "atom list list"

fun first_some :: "('a \<Rightarrow> 'b option) \<Rightarrow> 'a list \<Rightarrow> 'b option" where
  "first_some f [] = None"
| "first_some f (x # xs) = (case f x of Some y \<Rightarrow> Some y | None \<Rightarrow> first_some f xs)"

text \<open>
  The backtracking matcher, anchored at the start of \<open>s\<close>: it returns the text each
  atom matched. An alternation tries its branches in order; a quantifier is greedy: it
  first takes the whole run of white space, then gives back one code unit at a time
  while the rest of the pattern fails.
\<close>

fun bt :: "atom list \<Rightarrow> jsstring \<Rightarrow> jsstring list option" where
  "bt [] s = Some []"
| "bt (Lit l # r) s =
     (if prefix l s then map_option ((#) l) (bt r (drop (length l) s)) else None)"
| "bt (Alt ls # r) s =
     first_some
       (\<lambda>l. if prefix l s then map_option ((#) l) (bt r (drop (length l) s)) else None) ls"
| "bt (Spaces k # r) s =
     first_some (\<lambda>n. map_option ((#) (take n s)) (bt r (drop n s)))
       (rev [k..<Suc (length (takeWhile is_space s))])"

fun regroup :: "regex \<Rightarrow> jsstring list \<Rightarrow> jsstring list" where
  "regroup [] ps = []"
| "regroup (g # gs) ps = concat (take (length g) ps) # regroup gs (drop (length g) ps)"

text \<open>A match at the start of \<open>s\<close>: the texts of the capture groups \<^verbatim>\<open>$1\<close>, \<^verbatim>\<open>$2\<close>, ...\<close>

definition rx_exec :: "regex \<Rightarrow> jsstring \<Rightarrow> jsstring list option" where
  "rx_exec rx s = map_option (regroup rx) (bt (concat rx) s)"

text \<open>\<^verbatim>\<open>RegExp.prototype.test\<close>: the pattern matches at some position of \<open>s\<close>.\<close>

fun rx_test :: "regex \<Rightarrow> jsstring \<Rightarrow> bool" where
  "rx_test rx [] = (rx_exec rx [] \<noteq> None)"
| "rx_test rx (x # xs) = (rx_exec rx (x # xs) \<noteq> None \<or> rx_test rx xs)"

text \<open>
  A replacement template: \<^verbatim>\<open>$n\<close> is \<open>Grp n\<close>, anything else is text. A \<^verbatim>\<open>$n\<close> with
  no such group stays as it is written.
\<close>

datatype titem = Grp nat | Txt jsstring

fun subst :: "titem list \<Rightarrow> jsstring list \<Rightarrow> jsstring" where
  "subst [] caps = []"
| "subst (Txt t # r) caps = t @ subst r caps"
| "subst (Grp n # r) caps =
     (if 0 < n \<and> n \<le> length caps then caps ! (n - 1) else 36 # [of_nat (48 + n)])
     @ subst r caps"

text \<open>\<^verbatim>\<open>replace\<close> with a pattern without the \<^verbatim>\<open>g\<close> flag: the leftmost match only.\<close>

fun replace_first :: "regex \<Rightarrow> titem list \<Rightarrow> jsstring \<Rightarrow> jsstring" where
  "replace_first rx tpl [] = (case rx_exec rx [] of Some caps \<Rightarrow> subst tpl caps | None \<Rightarrow> [])"
| "replace_first rx tpl (x # xs) =
     (case rx_exec rx (x # xs) of
        Some caps \<Rightarrow> subst tpl caps @ drop (length (concat caps)) (x # xs)
      | None \<Rightarrow> x # replace_first rx tpl xs)"

text \<open>
  \<^verbatim>\<open>replace\<close> with the \<^verbatim>\<open>g\<close> flag: every match, from left to right, the search going
  on after the end of the last match (one code unit further after an empty match).
\<close>

function replace_all :: "regex \<Rightarrow> titem list \<Rightarrow> jsstring \<Rightarrow> jsstring" where
  "replace_all rx tpl [] = (case rx_exec rx [] of Some caps \<Rightarrow> subst tpl caps | None \<Rightarrow> [])"
| "replace_all rx tpl (x # xs) =
     (case rx_exec rx (x # xs) of
        Some caps \<Rightarrow>
          subst tpl caps @
          (if concat caps = [] then x # replace_all rx tpl xs
           else replace_all rx tpl (drop (length (concat caps)) (x # xs)))
      | None \<Rightarrow> x # replace_all rx tpl xs)"
  by pat_completeness auto
termination
  by (relation "measure (\<lambda>(rx, tpl, s). length s)") auto

section \<open>The constants of the script\<close>

definition BUNDLE_IDENTIFIER :: jsstring where
  "BUNDLE_IDENTIFIER = js ''com.hankun.BewlyCat''"

definition APP_GROUP :: jsstring where
  "APP_GROUP = js ''group.'' @ BUNDLE_IDENTIFIER"

text \<open>
  \<^verbatim>\<open>path.join\<close> on the path segments of the script, which hold no \<^verbatim>\<open>..\<close> and no
  doubled separator: the segments are joined with a slash and a leading \<^verbatim>\<open>./\<close> is
  dropped. File paths are plain ASCII strings.
\<close>

fun strip_dot :: "string \<Rightarrow> string" where
  "strip_dot (a # b # r) = (if a = CHR ''.'' \<and> b = CHR ''/'' then r else a # b # r)"
| "strip_dot p = p"

definition path_join :: "string \<Rightarrow> string \<Rightarrow> string" where
  "path_join a b = strip_dot (a @ ''/'' @ b)"

definition XCODE_PROJECT_DIR :: string where
  "XCODE_PROJECT_DIR = ''./extension-safari-xcode/BewlyCat''"

definition APP_DIR :: string where
  "APP_DIR = path_join XCODE_PROJECT_DIR ''BewlyCat''"

definition EXT_DIR :: string where
  "EXT_DIR = path_join XCODE_PROJECT_DIR ''BewlyCat Extension''"

definition PBXPROJ_PATH :: string where
  "PBXPROJ_PATH = path_join XCODE_PROJECT_DIR ''BewlyCat.xcodeproj/project.pbxproj''"

text \<open>Entitlements content for the main app.\<close>

definition APP_ENTITLEMENTS :: jsstring where
  "APP_ENTITLEMENTS = template_lines
    [js ''<?xml version='' @ quoted (js ''1.0'') @ js '' encoding='' @ quoted (js ''UTF-8'') @ js ''?>'',
     js ''<!DOCTYPE plist PUBLIC '' @ quoted (js ''-//Apple//DTD PLIST 1.0//EN'') @ js '' ''
       @ quoted (js ''http://www.apple.com/DTDs/PropertyList-1.0.dtd'') @ js ''>'',
     js ''<plist version='' @ quoted (js ''1.0'') @ js ''>'',
     js ''<dict>'',
     js ''    <key>com.apple.security.app-sandbox</key>'',
     js ''    <true/>'',
     js ''    <key>com.apple.security.network.client</key>'',
     js ''    <true/>'',
     js ''    <key>com.apple.security.application-groups</key>'',
     js ''    <array>'',
     js ''        <string>'' @ APP_GROUP @ js ''</string>'',
     js ''    </array>'',
     js ''</dict>'',
     js ''</plist>'']"

text \<open>Entitlements content for the extension.\<close>

definition EXT_ENTITLEMENTS :: jsstring where
  "EXT_ENTITLEMENTS = template_lines
    [js ''<?xml version='' @ quoted (js ''1.0'') @ js '' encoding='' @ quoted (js ''UTF-8'') @ js ''?>'',
     js ''<!DOCTYPE plist PUBLIC '' @ quoted (js ''-//Apple//DTD PLIST 1.0//EN'') @ js '' ''
       @ quoted (js ''http://www.apple.com/DTDs/PropertyList-1.0.dtd'') @ js ''>'',
     js ''<plist version='' @ quoted (js ''1.0'') @ js ''>'',
     js ''<dict>'',
     js ''    <key>com.apple.security.app-sandbox</key>'',
     js ''    <true/>'',
     js ''    <key>com.apple.security.network.client</key>'',
     js ''    <true/>'',
     js ''    <key>com.apple.security.application-groups</key>'',
     js ''    <array>'',
     js ''        <string>'' @ APP_GROUP @ js ''</string>'',
     js ''    </array>'',
     js ''</dict>'',
     js ''</plist>'']"

text \<open>
  The one template of which both documents are instances: the text of the documents with
  the App Group identifier left open.
\<close>

definition entitlements_template :: "jsstring \<Rightarrow> jsstring" where
  "entitlements_template appGroup = template_lines
    [js ''<?xml version='' @ quoted (js ''1.0'') @ js '' encoding='' @ quoted (js ''UTF-8'') @ js ''?>'',
     js ''<!DOCTYPE plist PUBLIC '' @ quoted (js ''-//Apple//DTD PLIST 1.0//EN'') @ js '' ''
       @ quoted (js ''http://www.apple.com/DTDs/PropertyList-1.0.dtd'') @ js ''>'',
     js ''<plist version='' @ quoted (js ''1.0'') @ js ''>'',
     js ''<dict>'',
     js ''    <key>com.apple.security.app-sandbox</key>'',
     js ''    <true/>'',
     js ''    <key>com.apple.security.network.client</key>'',
     js ''    <true/>'',
     js ''    <key>com.apple.security.application-groups</key>'',
     js ''    <array>'',
     js ''        <string>'' @ appGroup @ js ''</string>'',
     js ''    </array>'',
     js ''</dict>'',
     js ''</plist>'']"

section \<open>The process and its environment\<close>

text \<open>
  What the script reaches outside itself: the files (a path has a content, which is a
  sequence of bytes, or does not exist), the paths on which a read raises and those on which a write raises (a missing
  parent directory, a directory in place of the file, a permission), the outcomes of the
  successive calls of \<^verbatim>\<open>Math.random\<close> with the number of calls made so far, and the
  console.
\<close>

datatype io_error = ReadFailed string | WriteFailed string

datatype msg =
    Banner
  | NotFound string
  | RunConvertFirst
  | Created string
  | AlreadyConfigured
  | Updated string
  | Completed
  | AppGroupIs jsstring
  | NextSteps jsstring
  | Failed io_error

record world =
  files :: "string \<rightharpoonup> byte list"
  unreadable :: "string set"
  unwritable :: "string set"
  rng :: "nat \<Rightarrow> real"
  drawn :: nat
  console :: "msg list"

datatype 'a outcome = Threw io_error world | Returned 'a world

definition console_log :: "world \<Rightarrow> msg \<Rightarrow> world" where
  "console_log w m = w\<lparr>console := console w @ [m]\<rparr>"

definition Math_random :: "world \<Rightarrow> real \<times> world" where
  "Math_random w = (rng w (drawn w), w\<lparr>drawn := drawn w + 1\<rparr>)"

definition pathExists :: "world \<Rightarrow> string \<Rightarrow> bool" where
  "pathExists w p = (files w p \<noteq> None)"

definition readFile :: "world \<Rightarrow> string \<Rightarrow> jsstring outcome" where
  "readFile w p =
     (if p \<in> unreadable w then Threw (ReadFailed p) w
      else case files w p of
             None \<Rightarrow> Threw (ReadFailed p) w
           | Some bytes \<Rightarrow> Returned (utf8_decode bytes) w)"

definition writeFile :: "world \<Rightarrow> string \<Rightarrow> jsstring \<Rightarrow> unit outcome" where
  "writeFile w p c =
     (if p \<in> unwritable w then Threw (WriteFailed p) w
      else Returned () (w\<lparr>files := (files w)(p \<mapsto> utf8_encode c)\<rparr>))"

section \<open>generateUUID\<close>

definition chars :: jsstring where
  "chars = js ''0123456789ABCDEF''"

text \<open>
  \<^verbatim>\<open>result += chars[k]\<close>: an index outside the string reads \<^verbatim>\<open>undefined\<close>, which the
  concatenation turns into the text \<^verbatim>\<open>undefined\<close>.
\<close>

definition char_at :: "jsstring \<Rightarrow> int \<Rightarrow> jsstring" where
  "char_at s k = (if 0 \<le> k \<and> k < int (length s) then [s ! nat k] else js ''undefined'')"

function uuid_loop :: "nat \<Rightarrow> jsstring \<Rightarrow> world \<Rightarrow> jsstring \<times> world" where
  "uuid_loop i result w =
     (if i < 24 then
        (case Math_random w of (r, w') \<Rightarrow> uuid_loop (i + 1) (result @ char_at chars \<lfloor>r * 16\<rfloor>) w')
      else (result, w))"
  by pat_completeness auto
termination
  by (relation "measure (\<lambda>(i, result, w). 24 - i)") auto

declare uuid_loop.simps [simp del]

definition generateUUID :: "world \<Rightarrow> jsstring \<times> world" where
  "generateUUID w = uuid_loop 0 [] w"

section \<open>createEntitlementsFiles\<close>

definition appEntPath :: string where
  "appEntPath = path_join APP_DIR ''BewlyCat.entitlements''"

definition extEntPath :: string where
  "extEntPath = path_join EXT_DIR ''BewlyCat Extension.entitlements''"

definition createEntitlementsFiles :: "world \<Rightarrow> (string \<times> string) outcome" where
  "createEntitlementsFiles w =
     (case writeFile w appEntPath APP_ENTITLEMENTS of
        Threw e w' \<Rightarrow> Threw e w'
      | Returned _ w1 \<Rightarrow>
          (case writeFile (console_log w1 (Created appEntPath)) extEntPath EXT_ENTITLEMENTS of
             Threw e w' \<Rightarrow> Threw e w'
           | Returned _ w2 \<Rightarrow>
               Returned (appEntPath, extEntPath) (console_log w2 (Created extEntPath))))"

section \<open>updatePbxproj\<close>

definition marker :: jsstring where
  "marker = js ''BewlyCat.entitlements''"

definition fileRefEndMarker :: jsstring where
  "fileRefEndMarker = js ''/* End PBXFileReference section */''"

definition fileRefAddition :: "jsstring \<Rightarrow> jsstring \<Rightarrow> jsstring" where
  "fileRefAddition appEntFileRef extEntFileRef =
     [TAB, TAB] @ appEntFileRef
       @ js '' /* BewlyCat.entitlements */ = {isa = PBXFileReference; lastKnownFileType = text.plist.entitlements; path = BewlyCat.entitlements; sourceTree = ''
       @ quoted (js ''<group>'') @ js ''; };'' @ [NL]
     @ [TAB, TAB] @ extEntFileRef
       @ js '' /* BewlyCat Extension.entitlements */ = {isa = PBXFileReference; lastKnownFileType = text.plist.entitlements; path = ''
       @ quoted (js ''BewlyCat Extension.entitlements'') @ js ''; sourceTree = ''
       @ quoted (js ''<group>'') @ js ''; };'' @ [NL]
     @ fileRefEndMarker"

definition appSettingPattern :: regex where
  "appSettingPattern =
     [[Lit (js ''PRODUCT_BUNDLE_IDENTIFIER = com.hankun.BewlyCat;'')],
      [Spaces 1],
      [Alt [js ''PRODUCT_NAME'', js ''REGISTER_APP_GROUPS'']]]"

definition appSettingLine :: jsstring where
  "appSettingLine = js ''CODE_SIGN_ENTITLEMENTS = BewlyCat/BewlyCat.entitlements;''"

definition extSettingPattern :: regex where
  "extSettingPattern =
     [[Lit (js ''PRODUCT_BUNDLE_IDENTIFIER = com.hankun.BewlyCat.Extension;'')],
      [Spaces 1],
      [Alt [js ''PRODUCT_NAME'', js ''SKIP_INSTALL'']]]"

definition extSettingLine :: jsstring where
  "extSettingLine = js ''CODE_SIGN_ENTITLEMENTS = ''
     @ quoted (js ''BewlyCat Extension/BewlyCat Extension.entitlements'') @ js '';''"

definition appGroupPattern :: regex where
  "appGroupPattern =
     [[Lit (js ''/* BewlyCat */ = {''), Spaces 0, Lit (js ''isa = PBXGroup;''), Spaces 0,
       Lit (js ''children = ('')]]"

definition appGroupChild :: "jsstring \<Rightarrow> jsstring" where
  "appGroupChild appEntFileRef =
     [NL, TAB, TAB, TAB, TAB] @ appEntFileRef @ js '' /* BewlyCat.entitlements */,''"

definition extGroupPattern :: regex where
  "extGroupPattern =
     [[Lit (js ''/* BewlyCat Extension */ = {''), Spaces 0, Lit (js ''isa = PBXGroup;''), Spaces 0,
       Lit (js ''children = ('')]]"

definition extGroupChild :: "jsstring \<Rightarrow> jsstring" where
  "extGroupChild extEntFileRef =
     [NL, TAB, TAB, TAB, TAB] @ extEntFileRef @ js '' /* BewlyCat Extension.entitlements */,''"

text \<open>The five replacements of \<^verbatim>\<open>updatePbxproj\<close>, one definition each, in the order of the source.\<close>

definition add_file_refs :: "jsstring \<Rightarrow> jsstring \<Rightarrow> jsstring \<Rightarrow> jsstring" where
  "add_file_refs appEntFileRef extEntFileRef content =
     replace_str fileRefEndMarker (fileRefAddition appEntFileRef extEntFileRef) content"

definition add_app_setting :: "jsstring \<Rightarrow> jsstring" where
  "add_app_setting content =
     replace_all appSettingPattern [Grp 1, Grp 2, Txt appSettingLine, Grp 2, Grp 3] content"

definition add_ext_setting :: "jsstring \<Rightarrow> jsstring" where
  "add_ext_setting content =
     replace_all extSettingPattern [Grp 1, Grp 2, Txt extSettingLine, Grp 2, Grp 3] content"

definition add_app_child :: "jsstring \<Rightarrow> jsstring \<Rightarrow> jsstring" where
  "add_app_child appEntFileRef content =
     replace_first appGroupPattern [Grp 1, Txt (appGroupChild appEntFileRef)] content"

definition add_ext_child :: "jsstring \<Rightarrow> jsstring \<Rightarrow> jsstring" where
  "add_ext_child extEntFileRef content =
     replace_first extGroupPattern [Grp 1, Txt (extGroupChild extEntFileRef)] content"

definition patch_content :: "jsstring \<Rightarrow> jsstring \<Rightarrow> jsstring \<Rightarrow> jsstring" where
  "patch_content appEntFileRef extEntFileRef content =
     add_ext_child extEntFileRef
       (add_app_child appEntFileRef
          (add_ext_setting
             (add_app_setting
                (add_file_refs appEntFileRef extEntFileRef content))))"

definition updatePbxproj :: "world \<Rightarrow> unit outcome" where
  "updatePbxproj w =
     (case readFile w PBXPROJ_PATH of
        Threw e w' \<Rightarrow> Threw e w'
      | Returned content w1 \<Rightarrow>
          if js_includes content marker then Returned () (console_log w1 AlreadyConfigured)
          else
            (case generateUUID w1 of (appEntFileRef, w2) \<Rightarrow>
             case generateUUID w2 of (extEntFileRef, w3) \<Rightarrow>
             case writeFile w3 PBXPROJ_PATH (patch_content appEntFileRef extEntFileRef content) of
               Threw e w' \<Rightarrow> Threw e w'
             | Returned _ w4 \<Rightarrow> Returned () (console_log w4 (Updated PBXPROJ_PATH))))"

section \<open>main\<close>

text \<open>
  The result is the exit status of the process with the environment it leaves:
  \<^verbatim>\<open>process.exit(1)\<close> ends the process at once, and a run that reaches the end of
  \<^verbatim>\<open>main\<close> exits with status 0.
\<close>

definition main :: "world \<Rightarrow> nat \<times> world" where
  "main w0 =
     (let w = console_log w0 Banner in
      if \<not> pathExists w PBXPROJ_PATH then
        (1, console_log (console_log w (NotFound XCODE_PROJECT_DIR)) RunConvertFirst)
      else
        (case createEntitlementsFiles w of
           Threw e w' \<Rightarrow> (1, console_log w' (Failed e))
         | Returned _ w1 \<Rightarrow>
             (case updatePbxproj w1 of
                Threw e w' \<Rightarrow> (1, console_log w' (Failed e))
              | Returned _ w2 \<Rightarrow>
                  (0, console_log (console_log (console_log w2 Completed) (AppGroupIs APP_GROUP))
                        (NextSteps APP_GROUP)))))"

section \<open>Example environments\<close>

text \<open>
  Two sources of random numbers: one that cycles through the sixteen digits, and one that
  always draws 0.
\<close>

definition cycling_world :: world where
  "cycling_world =
     \<lparr>files = Map.empty, unreadable = {}, unwritable = {}, rng = (\<lambda>n. real (n mod 16) / 16),
      drawn = 0, console = []\<rparr>"

definition zero_world :: world where
  "zero_world =
     \<lparr>files = Map.empty, unreadable = {}, unwritable = {}, rng = (\<lambda>n. 0), drawn = 0, console = []\<rparr>"

text \<open>A descriptor with none of the texts the script looks for, and a run on it.\<close>

definition plain_descriptor :: jsstring where
  "plain_descriptor = js ''// !$*UTF8*$!'' @ [NL] @ js ''{ archiveVersion = 1; }'' @ [NL]"

definition plain_world :: world where
  "plain_world =
     \<lparr>files = [PBXPROJ_PATH \<mapsto> utf8_encode plain_descriptor], unreadable = {}, unwritable = {},
      rng = (\<lambda>n. real (n mod 16) / 16), drawn = 0, console = []\<rparr>"

text \<open>A descriptor that is not well-formed UTF-8.\<close>

definition stray_bytes :: "byte list" where
  "stray_bytes = [0x61, 0xFF, 0x62, 0xC3, 0x28, 0x0A]"

definition stray_bytes_world :: world where
  "stray_bytes_world =
     \<lparr>files = [PBXPROJ_PATH \<mapsto> stray_bytes], unreadable = {}, unwritable = {},
      rng = (\<lambda>n. real (n mod 16) / 16), drawn = 0, console = []\<rparr>"

section \<open>Facts about the codec\<close>

lemma unat_of_nat_byte: "n < 256 \<Longrightarrow> unat (of_nat n :: byte) = n"
  by (simp add: unat_of_nat)

lemma unat_of_nat_cu: "n < 65536 \<Longrightarrow> unat (of_nat n :: cu) = n"
  by (simp add: unat_of_nat)

lemma byte_eqI: "unat (b :: byte) = n \<Longrightarrow> of_nat n = b"
  by auto

lemma surrogate_nat:
  "high_surrogate c \<longleftrightarrow> 0xD800 \<le> unat c \<and> unat c \<le> 0xDBFF"
  "low_surrogate c \<longleftrightarrow> 0xDC00 \<le> unat c \<and> unat c \<le> 0xDFFF"
  by (simp_all add: high_surrogate_def low_surrogate_def word_le_nat_alt)

lemma cont_nat: "cont b \<longleftrightarrow> 0x80 \<le> unat b \<and> unat b \<le> 0xBF"
  by (simp add: cont_def word_le_nat_alt)

text \<open>ASCII.\<close>

lemma unat_ucast_small:
  "unat (c :: cu) < 256 \<Longrightarrow> unat (ucast c :: byte) = unat c"
  "unat (ucast (b :: byte) :: cu) = unat b"
proof -
  show "unat (ucast c :: byte) = unat c" if "unat c < 256"
    using that by (simp add: unsigned_ucast_eq take_bit_nat_eq_self)
  have "unat b < 256" using unsigned_less [of b] by simp
  then show "unat (ucast (b :: byte) :: cu) = unat b"
    by (simp add: unsigned_ucast_eq take_bit_nat_eq_self)
qed

lemma ascii_nat: "(c :: cu) < 0x80 \<longleftrightarrow> unat c < 128" "(b :: byte) < 0x80 \<longleftrightarrow> unat b < 128"
  by (simp_all add: word_less_nat_alt)

lemma ucast_ascii:
  "(c :: cu) < 0x80 \<Longrightarrow> (ucast c :: byte) < 0x80"
  "(c :: cu) < 0x80 \<Longrightarrow> ucast (ucast c :: byte) = c"
  "(b :: byte) < 0x80 \<Longrightarrow> (ucast b :: cu) < 0x80"
  "(b :: byte) < 0x80 \<Longrightarrow> ucast (ucast b :: cu) = b"
proof -
  show "(ucast c :: byte) < 0x80" if "c < 0x80"
    using that unfolding ascii_nat by (simp add: unat_ucast_small)
  show "ucast (ucast c :: byte) = c" if "c < 0x80"
    using that unfolding ascii_nat by (simp add: word_unat_eq_iff unat_ucast_small)
  show "(ucast b :: cu) < 0x80" if "b < 0x80"
    using that unfolding ascii_nat by (simp add: unat_ucast_small)
  show "ucast (ucast b :: cu) = b" if "b < 0x80"
    using that unfolding ascii_nat by (simp add: word_unat_eq_iff unat_ucast_small)
qed

lemma utf8_encode_ascii: "\<forall>c\<in>set s. c < 0x80 \<Longrightarrow> utf8_encode s = map ucast s"
proof (induction s rule: utf8_encode.induct)
  case 1
  show ?case by simp
next
  case (2 c)
  then have "unat c < 0x80" by (simp add: word_less_nat_alt)
  then show ?case
    by (simp add: surrogate_nat utf8_bytes_def)
next
  case (3 c d r)
  then have "unat c < 0x80" by (simp add: word_less_nat_alt)
  with 3 show ?case
    by (simp add: surrogate_nat utf8_bytes_def)
qed

lemma utf8_valid_ascii: "\<forall>b\<in>set bs. b < 0x80 \<Longrightarrow> utf8_valid bs"
  by (induction bs) simp_all

lemma utf8_decode_ascii: "\<forall>b\<in>set bs. b < 0x80 \<Longrightarrow> utf8_decode bs = map ucast bs"
  by (induction bs) (simp_all add: utf8_decode.simps(2))

lemma ascii_round_trip:
  "\<forall>b\<in>set bs. b < 0x80 \<Longrightarrow> utf8_encode (utf8_decode bs) = bs"
  "\<forall>c\<in>set s. c < 0x80 \<Longrightarrow> utf8_decode (utf8_encode s) = s"
proof -
  show "utf8_encode (utf8_decode bs) = bs" if "\<forall>b\<in>set bs. b < 0x80"
  proof -
    from that have "\<forall>c\<in>set (map ucast bs :: jsstring). c < 0x80" by (simp add: ucast_ascii)
    then have "utf8_encode (map ucast bs) = map ucast (map ucast bs :: jsstring)"
      by (rule utf8_encode_ascii)
    also have "\<dots> = bs" using that by (simp add: ucast_ascii map_idI)
    finally show ?thesis by (simp add: utf8_decode_ascii [OF that])
  qed
  show "utf8_decode (utf8_encode s) = s" if "\<forall>c\<in>set s. c < 0x80"
  proof -
    from that have "\<forall>c\<in>set (map ucast s :: byte list). c < 0x80" by (simp add: ucast_ascii)
    then have "utf8_decode (map ucast s) = map ucast (map ucast s :: byte list)"
      by (rule utf8_decode_ascii)
    also have "\<dots> = s" using that by (simp add: ucast_ascii map_idI)
    finally show ?thesis by (simp add: utf8_encode_ascii [OF that])
  qed
qed

text \<open>Well-formed UTF-8 is read and written back as it is.\<close>

lemma byte_of_nat_unat: "of_nat (unat (b :: byte)) = b"
  by simp

lemma byte_le_nat: "(a :: byte) \<le> b \<longleftrightarrow> unat a \<le> unat b" "(a :: byte) < b \<longleftrightarrow> unat a < unat b"
  by (simp_all add: word_le_nat_alt word_less_nat_alt)

lemma byte_eq_nat: "(a :: byte) = b \<longleftrightarrow> unat a = unat b"
  by (simp add: word_unat_eq_iff)

lemma second_ok_nat:
  "second_ok b c \<longleftrightarrow>
     (if unat b = 0xE0 then 0xA0 else if unat b = 0xF0 then 0x90 else 0x80) \<le> unat c
     \<and> unat c \<le> (if unat b = 0xED then 0x9F else if unat b = 0xF4 then 0x8F else 0xBF)"
  by (simp add: second_ok_def byte_le_nat byte_eq_nat)

lemma split2:
  fixes x y :: nat
  assumes "y < 64"
  shows "(x * 64 + y) div 64 = x" "(x * 64 + y) mod 64 = y"
  using assms by simp_all

lemma split3:
  fixes x y z :: nat
  assumes "y < 64" "z < 64"
  shows "(x * 4096 + y * 64 + z) div 4096 = x" "(x * 4096 + y * 64 + z) div 64 mod 64 = y"
    "(x * 4096 + y * 64 + z) mod 64 = z"
proof -
  have e: "x * 4096 + y * 64 + z = (x * 64 + y) * 64 + z" by simp
  have d: "(x * 4096 + y * 64 + z) div 64 = x * 64 + y"
    unfolding e using assms(2) by (rule split2(1))
  show "(x * 4096 + y * 64 + z) mod 64 = z"
    unfolding e using assms(2) by (rule split2(2))
  show "(x * 4096 + y * 64 + z) div 64 mod 64 = y"
    unfolding d using assms(1) by (rule split2(2))
  have "(x * 4096 + y * 64 + z) div 4096 = (x * 4096 + y * 64 + z) div 64 div 64"
    by (simp add: div_mult2_eq [symmetric])
  also have "\<dots> = x" unfolding d using assms(1) by (rule split2(1))
  finally show "(x * 4096 + y * 64 + z) div 4096 = x" .
qed

lemma split4:
  fixes x y z t :: nat
  assumes "y < 64" "z < 64" "t < 64"
  shows "(x * 262144 + y * 4096 + z * 64 + t) div 262144 = x"
    "(x * 262144 + y * 4096 + z * 64 + t) div 4096 mod 64 = y"
    "(x * 262144 + y * 4096 + z * 64 + t) div 64 mod 64 = z"
    "(x * 262144 + y * 4096 + z * 64 + t) mod 64 = t"
proof -
  have e: "x * 262144 + y * 4096 + z * 64 + t = (x * 64 + y) * 4096 + z * 64 + t" by simp
  note s = split3 [OF assms(2,3), of "x * 64 + y"]
  show "(x * 262144 + y * 4096 + z * 64 + t) mod 64 = t" unfolding e by (rule s(3))
  show "(x * 262144 + y * 4096 + z * 64 + t) div 64 mod 64 = z" unfolding e by (rule s(2))
  show "(x * 262144 + y * 4096 + z * 64 + t) div 4096 mod 64 = y"
    unfolding e s(1) using assms(1) by (rule split2(2))
  have "(x * 262144 + y * 4096 + z * 64 + t) div 262144
      = (x * 262144 + y * 4096 + z * 64 + t) div 4096 div 64"
    by (simp add: div_mult2_eq [symmetric])
  also have "\<dots> = x" unfolding e s(1) using assms(1) by (rule split2(1))
  finally show "(x * 262144 + y * 4096 + z * 64 + t) div 262144 = x" .
qed

lemma cont_ex: "cont c \<Longrightarrow> \<exists>y<64. unat c = 0x80 + y"
  unfolding cont_nat by (intro exI [of _ "unat c - 0x80"]) auto

lemma bytes2:
  assumes "0xC2 \<le> b" "b \<le> 0xDF" "cont c"
  shows "0x80 \<le> cp2 b c" "cp2 b c < 0x800" "utf8_bytes (cp2 b c) = [b, c]"
proof -
  from assms(1,2) obtain x where x: "unat b = 0xC0 + x" "2 \<le> x" "x < 32"
    unfolding byte_le_nat by (intro that [of "unat b - 0xC0"]) auto
  from cont_ex [OF assms(3)] obtain y where y: "unat c = 0x80 + y" "y < 64" by blast
  have cp: "cp2 b c = x * 64 + y" by (simp add: cp2_def x y)
  from x y show r: "0x80 \<le> cp2 b c" "cp2 b c < 0x800" unfolding cp by auto
  have "of_nat (0xC0 + x) = b" "of_nat (0x80 + y) = c"
    using x(1) y(1) by (metis byte_of_nat_unat)+
  with r show "utf8_bytes (cp2 b c) = [b, c]"
    unfolding utf8_bytes_def cp split2 [OF y(2)] by (simp del: of_nat_add of_nat_numeral)
qed

lemma bytes3:
  assumes "0xE0 \<le> b" "b \<le> 0xEF" "second_ok b c" "cont d"
  shows "0x800 \<le> cp3 b c d" "cp3 b c d < 0x10000" "\<not> (0xD800 \<le> cp3 b c d \<and> cp3 b c d \<le> 0xDFFF)"
    "utf8_bytes (cp3 b c d) = [b, c, d]"
proof -
  from assms(1,2) obtain x where x: "unat b = 0xE0 + x" "x < 16"
    unfolding byte_le_nat by (intro that [of "unat b - 0xE0"]) auto
  from assms(3) x have "cont c" by (auto simp: second_ok_nat cont_nat split: if_splits)
  from cont_ex [OF this] obtain y where y: "unat c = 0x80 + y" "y < 64" by blast
  from cont_ex [OF assms(4)] obtain z where z: "unat d = 0x80 + z" "z < 64" by blast
  from assms(3) x y have xy: "x = 0 \<longrightarrow> 32 \<le> y" "x = 13 \<longrightarrow> y < 32"
    by (auto simp: second_ok_nat split: if_splits)
  have cp: "cp3 b c d = x * 4096 + y * 64 + z" by (simp add: cp3_def x y z)
  from x y z xy show r: "0x800 \<le> cp3 b c d" "cp3 b c d < 0x10000"
    unfolding cp by auto
  show "\<not> (0xD800 \<le> cp3 b c d \<and> cp3 b c d \<le> 0xDFFF)"
  proof (cases "x = 13")
    case True
    with xy(2) y z show ?thesis unfolding cp by simp
  next
    case False
    then have "x \<le> 12 \<or> 14 \<le> x" by arith
    with y z show ?thesis unfolding cp by auto
  qed
  have "of_nat (0xE0 + x) = b" "of_nat (0x80 + y) = c" "of_nat (0x80 + z) = d"
    using x(1) y(1) z(1) by (metis byte_of_nat_unat)+
  with r show "utf8_bytes (cp3 b c d) = [b, c, d]"
    unfolding utf8_bytes_def cp split3 [OF y(2) z(2)] by (simp del: of_nat_add of_nat_numeral)
qed

lemma bytes4:
  assumes "0xF0 \<le> b" "b \<le> 0xF4" "second_ok b c" "cont d" "cont e"
  shows "0x10000 \<le> cp4 b c d e" "cp4 b c d e < 0x110000" "utf8_bytes (cp4 b c d e) = [b, c, d, e]"
proof -
  from assms(1,2) obtain x where x: "unat b = 0xF0 + x" "x < 5"
    unfolding byte_le_nat by (intro that [of "unat b - 0xF0"]) auto
  from assms(3) x have "cont c" by (auto simp: second_ok_nat cont_nat split: if_splits)
  from cont_ex [OF this] obtain y where y: "unat c = 0x80 + y" "y < 64" by blast
  from cont_ex [OF assms(4)] obtain z where z: "unat d = 0x80 + z" "z < 64" by blast
  from cont_ex [OF assms(5)] obtain t where t: "unat e = 0x80 + t" "t < 64" by blast
  from assms(3) x y have xy: "x = 0 \<longrightarrow> 16 \<le> y" "x = 4 \<longrightarrow> y < 16"
    by (auto simp: second_ok_nat split: if_splits)
  have cp: "cp4 b c d e = x * 262144 + y * 4096 + z * 64 + t" by (simp add: cp4_def x y z t)
  from x y z t xy show r: "0x10000 \<le> cp4 b c d e" "cp4 b c d e < 0x110000"
    unfolding cp by auto
  have "of_nat (0xF0 + x) = b" "of_nat (0x80 + y) = c" "of_nat (0x80 + z) = d" "of_nat (0x80 + t) = e"
    using x(1) y(1) z(1) t(1) by (metis byte_of_nat_unat)+
  with r show "utf8_bytes (cp4 b c d e) = [b, c, d, e]"
    unfolding utf8_bytes_def cp split4 [OF y(2) z(2) t(2)] by (simp del: of_nat_add of_nat_numeral)
qed

lemma encode_utf16:
  assumes "cp < 0x110000" "\<not> (0xD800 \<le> cp \<and> cp \<le> 0xDFFF)"
  shows "utf8_encode (utf16 cp @ s) = utf8_bytes cp @ utf8_encode s"
proof (cases "cp < 0x10000")
  case True
  then have u: "unat (of_nat cp :: cu) = cp" by (simp add: unat_of_nat_cu)
  with assms(2) have "\<not> high_surrogate (of_nat cp)" "\<not> low_surrogate (of_nat cp)"
    by (auto simp: surrogate_nat)
  with True u show ?thesis
    by (cases s) (simp_all add: utf16_def)
next
  case False
  let ?h = "0xD800 + (cp - 0x10000) div 0x400" and ?l = "0xDC00 + (cp - 0x10000) mod 0x400"
  from False assms(1) have b: "?h < 65536" "?l < 65536" "0xD800 \<le> ?h" "?h \<le> 0xDBFF"
    "0xDC00 \<le> ?l" "?l \<le> 0xDFFF" by auto
  then have u: "unat (of_nat ?h :: cu) = ?h" "unat (of_nat ?l :: cu) = ?l"
    by (simp_all only: unat_of_nat_cu)
  with b have s: "high_surrogate (of_nat ?h)" "low_surrogate (of_nat ?l)"
    by (simp_all only: surrogate_nat u)
  from False have "0x10000 + (?h - 0xD800) * 0x400 + (?l - 0xDC00) = cp" by auto
  with False s u show ?thesis
    by (simp add: utf16_def del: of_nat_add of_nat_numeral)
qed

lemma encode_ascii_Cons:
  assumes "b < 0x80"
  shows "utf8_encode (ucast b # s) = b # utf8_encode s"
proof -
  from assms have c: "unat (ucast b :: cu) < 128" "ucast (ucast b :: cu) = b"
    using ucast_ascii(3,4) [of b] by (simp_all add: ascii_nat)
  then have n: "\<not> high_surrogate (ucast b)" "\<not> low_surrogate (ucast b)"
    by (simp_all add: surrogate_nat)
  from c have u: "utf8_bytes (unat (ucast b :: cu)) = [b]"
    by (simp add: utf8_bytes_def)
  show ?thesis
    by (cases s) (simp_all only: utf8_encode.simps n u if_False simp_thms append_Cons append_Nil)
qed

lemma decode2:
  assumes "\<not> b < 0x80" "0xC2 \<le> b \<and> b \<le> 0xDF" "cont c"
  shows "utf8_decode (b # c # r) = utf16 (cp2 b c) @ utf8_decode r"
  by (subst utf8_decode.simps(2)) (simp add: assms)

lemma decode3:
  assumes "\<not> b < 0x80" "\<not> (0xC2 \<le> b \<and> b \<le> 0xDF)" "0xE0 \<le> b \<and> b \<le> 0xEF" "second_ok b c" "cont d"
  shows "utf8_decode (b # c # d # r) = utf16 (cp3 b c d) @ utf8_decode r"
  by (subst utf8_decode.simps(2)) (simp add: assms)

lemma decode4:
  assumes "\<not> b < 0x80" "\<not> (0xC2 \<le> b \<and> b \<le> 0xDF)" "\<not> (0xE0 \<le> b \<and> b \<le> 0xEF)"
    "0xF0 \<le> b \<and> b \<le> 0xF4" "second_ok b c" "cont d" "cont e"
  shows "utf8_decode (b # c # d # e # r) = utf16 (cp4 b c d e) @ utf8_decode r"
  by (subst utf8_decode.simps(2)) (simp add: assms)

lemma utf8_round_trip: "utf8_valid bs \<Longrightarrow> utf8_encode (utf8_decode bs) = bs"
proof (induction bs rule: utf8_valid.induct)
  case 1
  show ?case by simp
next
  case (2 b bs)
  consider "b < 0x80" | "\<not> b < 0x80" "0xC2 \<le> b \<and> b \<le> 0xDF"
    | "\<not> b < 0x80" "\<not> (0xC2 \<le> b \<and> b \<le> 0xDF)" "0xE0 \<le> b \<and> b \<le> 0xEF"
    | "\<not> b < 0x80" "\<not> (0xC2 \<le> b \<and> b \<le> 0xDF)" "\<not> (0xE0 \<le> b \<and> b \<le> 0xEF)" "0xF0 \<le> b \<and> b \<le> 0xF4"
    | "\<not> b < 0x80" "\<not> (0xC2 \<le> b \<and> b \<le> 0xDF)" "\<not> (0xE0 \<le> b \<and> b \<le> 0xEF)" "\<not> (0xF0 \<le> b \<and> b \<le> 0xF4)"
    by blast
  then show ?case
  proof cases
    case 1
    with "2.prems" have v: "utf8_valid bs" by simp
    from 1 have "utf8_decode (b # bs) = ucast b # utf8_decode bs" by (simp add: utf8_decode.simps(2))
    with "2.IH"(1) [OF 1 v] show ?thesis by (simp only: encode_ascii_Cons [OF 1])
  next
    case 2
    with "2.prems" obtain c r where bs: "bs = c # r" and c: "cont c" and v: "utf8_valid r"
      by (cases bs) simp_all
    note k = bytes2 [OF conjunct1 [OF 2(2)] conjunct2 [OF 2(2)] c]
    have "utf8_encode (utf16 (cp2 b c) @ utf8_decode r) = utf8_bytes (cp2 b c) @ utf8_encode (utf8_decode r)"
      using k by (intro encode_utf16) auto
    with k(3) "2.IH"(2) [OF 2(1) 2(2) bs v] show ?thesis
      unfolding bs decode2 [OF 2 c] by simp
  next
    case 3
    with "2.prems" obtain c d r where bs: "bs = c # d # r" and c: "second_ok b c" "cont d"
      and v: "utf8_valid r"
      by (cases bs) (simp_all split: list.splits)
    note k = bytes3 [OF conjunct1 [OF 3(3)] conjunct2 [OF 3(3)] c]
    have "utf8_encode (utf16 (cp3 b c d) @ utf8_decode r) = utf8_bytes (cp3 b c d) @ utf8_encode (utf8_decode r)"
      using k by (intro encode_utf16) auto
    with k(4) "2.IH"(3) [OF 3(1) 3(2) 3(3) bs refl v] show ?thesis
      unfolding bs decode3 [OF 3 c] by simp
  next
    case 4
    with "2.prems" obtain c d e r where bs: "bs = c # d # e # r" and c: "second_ok b c" "cont d" "cont e"
      and v: "utf8_valid r"
      by (cases bs) (simp_all split: list.splits)
    note k = bytes4 [OF conjunct1 [OF 4(4)] conjunct2 [OF 4(4)] c]
    have "utf8_encode (utf16 (cp4 b c d e) @ utf8_decode r) = utf8_bytes (cp4 b c d e) @ utf8_encode (utf8_decode r)"
      using k by (intro encode_utf16) auto
    with k(3) "2.IH"(4) [OF 4(1) 4(2) 4(3) 4(4) bs refl refl v] show ?thesis
      unfolding bs decode4 [OF 4 c] by simp
  next
    case 5
    with "2.prems" show ?thesis by simp
  qed
qed

section \<open>Facts about the matcher\<close>

lemma bt_prefix: "bt r s = Some ps \<Longrightarrow> prefix (concat ps) s"
proof (induction r arbitrary: s ps)
  case Nil
  then show ?case by simp
next
  case (Cons a r)
  show ?case
  proof (cases a)
    case (Lit l)
    with Cons.prems obtain qs where q: "prefix l s" "bt r (drop (length l) s) = Some qs" "ps = l # qs"
      by (auto split: if_splits)
    from Cons.IH [OF q(2)] q(1) q(3) show ?thesis
      by (auto simp: prefix_def)
  next
    case (Spaces k)
    have "first_some (\<lambda>n. map_option ((#) (take n s)) (bt r (drop n s))) ns = Some ps
      \<Longrightarrow> prefix (concat ps) s" for ns
    proof (induction ns)
      case Nil
      then show ?case by simp
    next
      case (Cons n ns)
      show ?case
      proof (cases "bt r (drop n s)")
        case None
        with Cons show ?thesis by simp
      next
        case (Some qs)
        with Cons.prems have "ps = take n s # qs" by simp
        moreover from \<open>\<And>s ps. bt r s = Some ps \<Longrightarrow> prefix (concat ps) s\<close> [OF Some]
        obtain z where "drop n s = concat qs @ z" by (auto simp: prefix_def)
        ultimately have "s = concat ps @ z"
          by (metis append.assoc append_take_drop_id concat.simps(2))
        then show ?thesis by (metis prefixI)
      qed
    qed
    with Cons.prems Spaces show ?thesis by simp
  next
    case (Alt ls)
    have "first_some (\<lambda>l. if prefix l s then map_option ((#) l) (bt r (drop (length l) s)) else None) ms
        = Some ps \<Longrightarrow> prefix (concat ps) s" for ms
    proof (induction ms)
      case Nil
      then show ?case by simp
    next
      case (Cons l ms)
      show ?case
      proof (cases "prefix l s \<and> bt r (drop (length l) s) \<noteq> None")
        case True
        then obtain qs where q: "prefix l s" "bt r (drop (length l) s) = Some qs" by auto
        with Cons.prems have "ps = l # qs" by simp
        with \<open>\<And>s ps. bt r s = Some ps \<Longrightarrow> prefix (concat ps) s\<close> [OF q(2)] q(1) show ?thesis
          by (auto simp: prefix_def)
      next
        case False
        with Cons show ?thesis by (auto split: if_splits)
      qed
    qed
    with Cons.prems Alt show ?thesis by simp
  qed
qed

lemma length_regroup_concat:
  "length ps = length (concat rx) \<Longrightarrow> concat (regroup rx ps) = concat ps"
proof (induction rx arbitrary: ps)
  case Nil
  then show ?case by simp
next
  case (Cons g gs)
  then have "concat (regroup gs (drop (length g) ps)) = concat (drop (length g) ps)"
    by simp
  then show ?case
    by (simp flip: concat_append)
qed

lemma bt_length: "bt r s = Some ps \<Longrightarrow> length ps = length r"
proof (induction r arbitrary: s ps)
  case Nil
  then show ?case by simp
next
  case (Cons a r)
  have fs: "first_some f xs = Some ps \<Longrightarrow> \<exists>x. f x = Some ps" for f :: "'c \<Rightarrow> jsstring list option" and xs
    by (induction xs) (auto split: option.splits)
  show ?case
  proof (cases a)
    case (Lit l)
    with Cons show ?thesis by (auto split: if_splits)
  next
    case (Spaces k)
    with Cons.prems obtain n where "map_option ((#) (take n s)) (bt r (drop n s)) = Some ps"
      using fs by fastforce
    with Cons.IH show ?thesis by auto
  next
    case (Alt ls)
    with Cons.prems obtain l where
      "(if prefix l s then map_option ((#) l) (bt r (drop (length l) s)) else None) = Some ps"
      using fs by fastforce
    with Cons.IH show ?thesis by (auto split: if_splits)
  qed
qed

lemma rx_exec_prefix: "rx_exec rx s = Some caps \<Longrightarrow> prefix (concat caps) s"
  unfolding rx_exec_def
  using bt_prefix bt_length length_regroup_concat by fastforce

section \<open>Paths\<close>

lemma paths: "PBXPROJ_PATH = ''extension-safari-xcode/BewlyCat/BewlyCat.xcodeproj/project.pbxproj''"
  "appEntPath = ''extension-safari-xcode/BewlyCat/BewlyCat/BewlyCat.entitlements''"
  "extEntPath = ''extension-safari-xcode/BewlyCat/BewlyCat Extension/BewlyCat Extension.entitlements''"
  by (simp_all add: PBXPROJ_PATH_def appEntPath_def extEntPath_def APP_DIR_def EXT_DIR_def path_join_def XCODE_PROJECT_DIR_def)

lemma paths_distinct: "appEntPath \<noteq> extEntPath" "appEntPath \<noteq> PBXPROJ_PATH" "extEntPath \<noteq> PBXPROJ_PATH"
  by (simp_all add: paths)

section \<open>The identifier generator\<close>

lemma uuid_loop_eq:
  "uuid_loop i acc w =
     (acc @ concat (map (\<lambda>k. char_at chars \<lfloor>rng w (drawn w + k) * 16\<rfloor>) [0..<24 - i]),
      w\<lparr>drawn := drawn w + (24 - i)\<rparr>)"
proof (induction i acc w rule: uuid_loop.induct)
  case (1 i result w)
  show ?case
  proof (cases "i < 24")
    case True
    then have u: "[0..<24 - i] = 0 # map Suc [0..<24 - (i + 1)]"
      by (metis Suc_diff_Suc Suc_eq_plus1 diff_Suc_eq_diff_pred map_Suc_upt upt_conv_Cons zero_less_diff diff_diff_left)
    have "uuid_loop i result w = uuid_loop (i + 1) (result @ char_at chars \<lfloor>rng w (drawn w) * 16\<rfloor>) (w\<lparr>drawn := drawn w + 1\<rparr>)"
      using True by (subst uuid_loop.simps) (simp add: Math_random_def)
    also have "\<dots> = (result @ concat (map (\<lambda>k. char_at chars \<lfloor>rng w (drawn w + k) * 16\<rfloor>) [0..<24 - i]),
      w\<lparr>drawn := drawn w + (24 - i)\<rparr>)"
      using True by (subst "1.IH" [OF True]) (simp_all add: Math_random_def u comp_def)
    finally show ?thesis .
  next
    case False
    then show ?thesis by (subst uuid_loop.simps) simp
  qed
qed


lemma chars_props: "length chars = 16" "distinct chars"
  by (simp_all add: chars_def js_def)

lemma digit_bounds:
  assumes "0 \<le> r" "r < 1"
  shows "0 \<le> \<lfloor>r * 16\<rfloor>" "\<lfloor>r * 16\<rfloor> < 16"
proof -
  from assms show "0 \<le> \<lfloor>r * 16\<rfloor>" by simp
  from assms have "r * 16 < 16" by simp
  then show "\<lfloor>r * 16\<rfloor> < 16" by (simp add: floor_less_iff)
qed

lemma char_at_digit:
  assumes "0 \<le> r" "r < 1"
  shows "char_at chars \<lfloor>r * 16\<rfloor> = [chars ! nat \<lfloor>r * 16\<rfloor>]"
  using digit_bounds [OF assms] by (simp add: char_at_def chars_props)

lemma concat_map_singleton: "concat (map (\<lambda>k. [f k]) xs) = map f xs"
  by (induction xs) simp_all

lemma generateUUID_eq:
  assumes "\<forall>n. 0 \<le> rng w n \<and> rng w n < 1"
  shows "generateUUID w =
    (map (\<lambda>k. chars ! nat \<lfloor>rng w (drawn w + k) * 16\<rfloor>) [0..<24], w\<lparr>drawn := drawn w + 24\<rparr>)"
proof -
  have "(\<lambda>k. char_at chars \<lfloor>rng w (drawn w + k) * 16\<rfloor>) = (\<lambda>k. [chars ! nat \<lfloor>rng w (drawn w + k) * 16\<rfloor>])"
    using assms by (auto simp: char_at_digit)
  then show ?thesis
    by (simp add: generateUUID_def uuid_loop_eq concat_map_singleton)
qed

lemma generateUUID_world:
  "snd (generateUUID w) = w\<lparr>drawn := drawn w + 24\<rparr>"
  by (simp add: generateUUID_def uuid_loop_eq)

lemma cycling_valid: "\<forall>n. 0 \<le> rng cycling_world n \<and> rng cycling_world n < 1"
  by (simp add: cycling_world_def)

text \<open>
  C5: when every draw of \<^verbatim>\<open>Math.random\<close> lies in \<open>[0, 1)\<close>, as its contract says, the
  generator returns exactly 24 code units, each one of \<^verbatim>\<open>0123456789ABCDEF\<close>.
\<close>

theorem generateUUID_format:
  assumes "\<forall>n. 0 \<le> rng w n \<and> rng w n < 1"
  shows "length (fst (generateUUID w)) = 24 \<and> set (fst (generateUUID w)) \<subseteq> set (js ''0123456789ABCDEF'')"
proof -
  have "chars ! nat \<lfloor>rng w n * 16\<rfloor> \<in> set chars" for n
    using assms digit_bounds [of "rng w n"] by (simp add: chars_props nat_less_iff)
  then show ?thesis
    by (auto simp: generateUUID_eq [OF assms] chars_def [symmetric])
qed

theorem generateUUID_format_witness:
  "(\<forall>n. 0 \<le> rng cycling_world n \<and> rng cycling_world n < 1)
   \<and> (length (fst (generateUUID cycling_world)) = 24
      \<and> set (fst (generateUUID cycling_world)) \<subseteq> set (js ''0123456789ABCDEF''))"
  using cycling_valid generateUUID_format [OF cycling_valid] by (rule conjI)


lemma uuid_eq_iff:
  assumes "\<forall>n. 0 \<le> rng w n \<and> rng w n < 1"
  shows "(map (\<lambda>k. chars ! nat \<lfloor>rng w (p + k) * 16\<rfloor>) [0..<24] = map (\<lambda>k. chars ! nat \<lfloor>rng w (q + k) * 16\<rfloor>) [0..<24])
     = (\<forall>k<24. \<lfloor>rng w (p + k) * 16\<rfloor> = \<lfloor>rng w (q + k) * 16\<rfloor>)"
proof -
  have d: "(chars ! nat \<lfloor>rng w a * 16\<rfloor> = chars ! nat \<lfloor>rng w b * 16\<rfloor>) = (\<lfloor>rng w a * 16\<rfloor> = \<lfloor>rng w b * 16\<rfloor>)" for a b
  proof -
    have "nat \<lfloor>rng w a * 16\<rfloor> < length chars" "nat \<lfloor>rng w b * 16\<rfloor> < length chars"
      using assms digit_bounds [of "rng w a"] digit_bounds [of "rng w b"]
      by (simp_all add: chars_props nat_less_iff)
    then have "(chars ! nat \<lfloor>rng w a * 16\<rfloor> = chars ! nat \<lfloor>rng w b * 16\<rfloor>) = (nat \<lfloor>rng w a * 16\<rfloor> = nat \<lfloor>rng w b * 16\<rfloor>)"
      using chars_props(2) by (simp add: nth_eq_iff_index_eq)
    also have "\<dots> = (\<lfloor>rng w a * 16\<rfloor> = \<lfloor>rng w b * 16\<rfloor>)"
    proof -
      have "0 \<le> \<lfloor>rng w a * 16\<rfloor>" "0 \<le> \<lfloor>rng w b * 16\<rfloor>"
        using assms digit_bounds(1) [of "rng w a"] digit_bounds(1) [of "rng w b"] by blast+
      then show ?thesis by (simp add: eq_nat_nat_iff)
    qed
    finally show ?thesis .
  qed
  show ?thesis by (simp add: list_eq_iff_nth_eq d)
qed

text \<open>
  C9, as amended: nothing keeps the two tokens of a run apart. They differ exactly when
  some pair of corresponding draws gives different digits.
\<close>

theorem generated_tokens_distinct_iff:
  assumes "\<forall>n. 0 \<le> rng w n \<and> rng w n < 1"
  shows "(fst (generateUUID w) \<noteq> fst (generateUUID (snd (generateUUID w))))
     = (\<exists>k<24. \<lfloor>rng w (drawn w + k) * 16\<rfloor> \<noteq> \<lfloor>rng w (drawn w + 24 + k) * 16\<rfloor>)"
proof -
  let ?w = "snd (generateUUID w)"
  have v: "\<forall>n. 0 \<le> rng ?w n \<and> rng ?w n < 1"
    using assms by (simp add: generateUUID_world)
  show ?thesis
    unfolding generateUUID_eq [OF v] unfolding generateUUID_eq [OF assms]
    using uuid_eq_iff [OF assms, of "drawn w" "drawn w + 24"]
    by (auto simp del: upt_conv_Cons)
qed

text \<open>C9 as stated fails: with a source that always draws 0 the two tokens are equal.\<close>

theorem generated_tokens_equal_counterexample:
  "fst (generateUUID zero_world) = fst (generateUUID (snd (generateUUID zero_world)))"
proof -
  have v: "\<forall>n. 0 \<le> rng zero_world n \<and> rng zero_world n < 1"
    by (simp add: zero_world_def)
  have v': "\<forall>n. 0 \<le> rng (snd (generateUUID zero_world)) n \<and> rng (snd (generateUUID zero_world)) n < 1"
    by (simp add: generateUUID_world zero_world_def)
  show ?thesis
    unfolding generateUUID_eq [OF v'] unfolding generateUUID_eq [OF v]
    by (simp add: zero_world_def)
qed

theorem generated_tokens_distinct_iff_witness:
  "(\<forall>n. 0 \<le> rng cycling_world n \<and> rng cycling_world n < 1)
   \<and> ((fst (generateUUID cycling_world) \<noteq> fst (generateUUID (snd (generateUUID cycling_world))))
     = (\<exists>k<24. \<lfloor>rng cycling_world (drawn cycling_world + k) * 16\<rfloor> \<noteq> \<lfloor>rng cycling_world (drawn cycling_world + 24 + k) * 16\<rfloor>))"
  using cycling_valid generated_tokens_distinct_iff [OF cycling_valid] by (rule conjI)


section \<open>Evaluation and absence of a pattern\<close>

lemma prefix_Cons_if: "prefix (a # as) (b # bs) = (if a = b then prefix as bs else False)"
  by simp

lemma entitlements_same: "EXT_ENTITLEMENTS = APP_ENTITLEMENTS"
  by (simp add: APP_ENTITLEMENTS_def EXT_ENTITLEMENTS_def)

lemma entitlements_group_once:
  "occurrences APP_ENTITLEMENTS APP_GROUP = 1" "occurrences EXT_ENTITLEMENTS APP_GROUP = 1"
proof -
  show "occurrences APP_ENTITLEMENTS APP_GROUP = 1"
    by (simp del: Cons_prefix_Cons add: prefix_Cons_if APP_ENTITLEMENTS_def APP_GROUP_def
        BUNDLE_IDENTIFIER_def template_lines_def quoted_def js_def)
  then show "occurrences EXT_ENTITLEMENTS APP_GROUP = 1"
    by (simp only: entitlements_same)
qed

lemma entitlements_ascii: "\<forall>c\<in>set APP_ENTITLEMENTS. c < 0x80"
  by (simp add: APP_ENTITLEMENTS_def APP_GROUP_def BUNDLE_IDENTIFIER_def template_lines_def
      quoted_def js_def)

lemma entitlements_read_back:
  "utf8_decode (utf8_encode APP_ENTITLEMENTS) = APP_ENTITLEMENTS"
  "utf8_decode (utf8_encode EXT_ENTITLEMENTS) = EXT_ENTITLEMENTS"
  unfolding entitlements_same by (rule ascii_round_trip(2) [OF entitlements_ascii])+

lemma replace_str_absent: "\<not> js_includes s pat \<Longrightarrow> replace_str pat rep s = s"
  by (induction s) auto

lemma replace_first_absent: "\<not> rx_test rx s \<Longrightarrow> replace_first rx tpl s = s"
  by (induction s) auto

lemma replace_all_absent: "\<not> rx_test rx s \<Longrightarrow> replace_all rx tpl s = s"
  by (induction rx tpl s rule: replace_all.induct) auto

lemma patch_content_no_anchor:
  assumes "\<not> js_includes c fileRefEndMarker"
    "\<not> rx_test appSettingPattern c" "\<not> rx_test extSettingPattern c"
    "\<not> rx_test appGroupPattern c" "\<not> rx_test extGroupPattern c"
  shows "patch_content u1 u2 c = c"
  using assms
  by (simp add: patch_content_def add_file_refs_def add_app_setting_def add_ext_setting_def
      add_app_child_def add_ext_child_def replace_str_absent replace_first_absent replace_all_absent)

lemma createEntitlementsFiles_Returned:
  assumes "createEntitlementsFiles w = Returned r w1"
  shows "r = (appEntPath, extEntPath)"
    and "files w1 = (files w)(appEntPath \<mapsto> utf8_encode APP_ENTITLEMENTS,
          extEntPath \<mapsto> utf8_encode EXT_ENTITLEMENTS)"
    and "unreadable w1 = unreadable w" and "unwritable w1 = unwritable w"
    and "rng w1 = rng w" and "drawn w1 = drawn w"
    and "console w1 = console w @ [Created appEntPath, Created extEntPath]"
  using assms
  by (auto simp: createEntitlementsFiles_def writeFile_def console_log_def
      split: if_splits)

lemma createEntitlementsFiles_ok:
  assumes "appEntPath \<notin> unwritable w" "extEntPath \<notin> unwritable w"
  shows "\<exists>w1. createEntitlementsFiles w = Returned (appEntPath, extEntPath) w1"
  using assms
  by (auto simp: createEntitlementsFiles_def writeFile_def console_log_def)

lemma createEntitlementsFiles_Threw:
  assumes "createEntitlementsFiles w = Threw e w'"
  shows "appEntPath \<in> unwritable w \<or> extEntPath \<in> unwritable w"
  using assms
  by (auto simp: createEntitlementsFiles_def writeFile_def console_log_def split: if_splits)

lemma generateUUID_fields:
  "files (snd (generateUUID w)) = files w" "unreadable (snd (generateUUID w)) = unreadable w"
  "unwritable (snd (generateUUID w)) = unwritable w"
  "console (snd (generateUUID w)) = console w" "rng (snd (generateUUID w)) = rng w"
  by (simp_all add: generateUUID_world)

lemma updatePbxproj_Returned:
  assumes "updatePbxproj w = Returned r w2"
  shows "\<forall>p. p \<noteq> PBXPROJ_PATH \<longrightarrow> files w2 p = files w p"
  using assms
  by (auto simp: updatePbxproj_def readFile_def writeFile_def console_log_def split_beta
      generateUUID_fields split: if_splits option.splits)

lemma main_success:
  assumes "fst (main w) = 0"
  obtains w1 w2 where "createEntitlementsFiles (console_log w Banner) = Returned (appEntPath, extEntPath) w1"
    and "updatePbxproj w1 = Returned () w2"
    and "files (snd (main w)) = files w2"
proof -
  from assms have e: "pathExists (console_log w Banner) PBXPROJ_PATH"
    by (auto simp: main_def Let_def split: if_splits)
  from assms e obtain r w1 where c: "createEntitlementsFiles (console_log w Banner) = Returned r w1"
    by (cases "createEntitlementsFiles (console_log w Banner)") (auto simp: main_def Let_def)
  from assms e c obtain w2 where u: "updatePbxproj w1 = Returned () w2"
    by (cases "updatePbxproj w1") (auto simp: main_def Let_def)
  from e c u have "files (snd (main w)) = files w2"
    by (simp add: main_def Let_def console_log_def)
  with c u createEntitlementsFiles_Returned(1) [OF c] that show thesis by simp
qed

section \<open>The run as a whole\<close>

text \<open>
  C2: when the project descriptor does not exist, the process exits with status 1 and
  the files are what they were: neither entitlement file is written and the descriptor
  is not created.
\<close>

theorem missing_descriptor_exits_1:
  assumes "files w PBXPROJ_PATH = None"
  shows "fst (main w) = 1 \<and> files (snd (main w)) = files w"
  using assms by (simp add: main_def Let_def pathExists_def console_log_def)

text \<open>
  C6: after a run that exits with status 0, both entitlement files exist at their fixed
  paths, whatever stood there before; their bytes are the UTF-8 encoding of the documents
  of the script and are read back as these documents, and each document holds the App
  Group identifier at exactly one position.
\<close>

theorem successful_run_entitlements:
  assumes "fst (main w) = 0"
  shows "files (snd (main w)) appEntPath = Some (utf8_encode APP_ENTITLEMENTS)
       \<and> files (snd (main w)) extEntPath = Some (utf8_encode EXT_ENTITLEMENTS)
       \<and> utf8_decode (utf8_encode APP_ENTITLEMENTS) = APP_ENTITLEMENTS
       \<and> utf8_decode (utf8_encode EXT_ENTITLEMENTS) = EXT_ENTITLEMENTS
       \<and> occurrences APP_ENTITLEMENTS APP_GROUP = 1
       \<and> occurrences EXT_ENTITLEMENTS APP_GROUP = 1"
proof -
  from assms obtain w1 w2 where
    c: "createEntitlementsFiles (console_log w Banner) = Returned (appEntPath, extEntPath) w1"
    and u: "updatePbxproj w1 = Returned () w2"
    and f: "files (snd (main w)) = files w2"
    by (rule main_success)
  from updatePbxproj_Returned [OF u] paths_distinct
  have "files w2 appEntPath = files w1 appEntPath" "files w2 extEntPath = files w1 extEntPath"
    by simp_all
  with createEntitlementsFiles_Returned(2) [OF c] paths_distinct f entitlements_group_once
    entitlements_read_back
  show ?thesis by simp
qed


lemma generateUUID_cong:
  "rng w' = rng w \<Longrightarrow> drawn w' = drawn w \<Longrightarrow> fst (generateUUID w') = fst (generateUUID w)"
  by (simp add: generateUUID_def uuid_loop_eq)

lemma updatePbxproj_ok:
  assumes "files w PBXPROJ_PATH = Some b" "PBXPROJ_PATH \<notin> unreadable w" "PBXPROJ_PATH \<notin> unwritable w"
  shows "updatePbxproj w =
    (if js_includes (utf8_decode b) marker
     then Returned () (w\<lparr>console := console w @ [AlreadyConfigured]\<rparr>)
     else Returned ()
       (w\<lparr>files := (files w)(PBXPROJ_PATH \<mapsto>
             utf8_encode (patch_content (fst (generateUUID w))
               (fst (generateUUID (snd (generateUUID w)))) (utf8_decode b))),
          drawn := drawn w + 48,
          console := console w @ [Updated PBXPROJ_PATH]\<rparr>))"
  using assms
  by (simp add: updatePbxproj_def readFile_def writeFile_def console_log_def split_beta
      generateUUID_world)

lemma main_ok:
  assumes "files w PBXPROJ_PATH = Some b" "PBXPROJ_PATH \<notin> unreadable w"
    "PBXPROJ_PATH \<notin> unwritable w" "appEntPath \<notin> unwritable w" "extEntPath \<notin> unwritable w"
  shows "fst (main w) = 0"
    and "files (snd (main w)) =
      (files w)(appEntPath \<mapsto> utf8_encode APP_ENTITLEMENTS, extEntPath \<mapsto> utf8_encode EXT_ENTITLEMENTS,
        PBXPROJ_PATH \<mapsto>
          (if js_includes (utf8_decode b) marker then b
           else utf8_encode (patch_content (fst (generateUUID w))
                  (fst (generateUUID (snd (generateUUID w)))) (utf8_decode b))))"
    and "console (snd (main w)) =
      console w @ [Banner, Created appEntPath, Created extEntPath,
        if js_includes (utf8_decode b) marker then AlreadyConfigured else Updated PBXPROJ_PATH,
        Completed, AppGroupIs APP_GROUP, NextSteps APP_GROUP]"
proof -
  let ?w0 = "console_log w Banner"
  let ?w1 = "?w0\<lparr>files := (files w)(appEntPath \<mapsto> utf8_encode APP_ENTITLEMENTS,
        extEntPath \<mapsto> utf8_encode EXT_ENTITLEMENTS),
      console := console w @ [Banner, Created appEntPath, Created extEntPath]\<rparr>"
  have e: "pathExists ?w0 PBXPROJ_PATH"
    using assms(1) by (simp add: pathExists_def console_log_def)
  have c: "createEntitlementsFiles ?w0 = Returned (appEntPath, extEntPath) ?w1"
    using assms(4,5) by (simp add: createEntitlementsFiles_def writeFile_def console_log_def)
  have f: "files ?w1 PBXPROJ_PATH = Some b" "PBXPROJ_PATH \<notin> unreadable ?w1" "PBXPROJ_PATH \<notin> unwritable ?w1"
    using assms(1,2,3) paths_distinct by (simp_all add: console_log_def)
  have g: "fst (generateUUID ?w1) = fst (generateUUID w)"
    "fst (generateUUID (snd (generateUUID ?w1))) = fst (generateUUID (snd (generateUUID w)))"
    by (rule generateUUID_cong; simp add: console_log_def generateUUID_world)+
  note u = updatePbxproj_ok [OF f, unfolded g]
  have m: "main w = (case updatePbxproj ?w1 of
                Threw e w' \<Rightarrow> (1, console_log w' (Failed e))
              | Returned _ w2 \<Rightarrow>
                  (0, console_log (console_log (console_log w2 Completed) (AppGroupIs APP_GROUP))
                        (NextSteps APP_GROUP)))"
    using e by (simp add: main_def Let_def c)
  show "fst (main w) = 0"
    unfolding m u by simp
  show "files (snd (main w)) =
      (files w)(appEntPath \<mapsto> utf8_encode APP_ENTITLEMENTS, extEntPath \<mapsto> utf8_encode EXT_ENTITLEMENTS,
        PBXPROJ_PATH \<mapsto>
          (if js_includes (utf8_decode b) marker then b
           else utf8_encode (patch_content (fst (generateUUID w))
                  (fst (generateUUID (snd (generateUUID w)))) (utf8_decode b))))"
    unfolding m u using assms(1) paths_distinct
    by (auto simp: console_log_def)
  show "console (snd (main w)) =
      console w @ [Banner, Created appEntPath, Created extEntPath,
        if js_includes (utf8_decode b) marker then AlreadyConfigured else Updated PBXPROJ_PATH,
        Completed, AppGroupIs APP_GROUP, NextSteps APP_GROUP]"
    unfolding m u by (simp add: console_log_def)
qed

text \<open>The write of the descriptor is attempted: on a read-only descriptor the run fails.\<close>

lemma main_read_only:
  assumes "files w PBXPROJ_PATH = Some b" "PBXPROJ_PATH \<notin> unreadable w"
    "appEntPath \<notin> unwritable w" "extEntPath \<notin> unwritable w"
    and "\<not> js_includes (utf8_decode b) marker"
  shows "fst (main (w\<lparr>unwritable := insert PBXPROJ_PATH (unwritable w)\<rparr>)) = 1"
proof -
  let ?w = "w\<lparr>unwritable := insert PBXPROJ_PATH (unwritable w)\<rparr>"
  let ?w0 = "console_log ?w Banner"
  let ?w1 = "?w0\<lparr>files := (files w)(appEntPath \<mapsto> utf8_encode APP_ENTITLEMENTS,
        extEntPath \<mapsto> utf8_encode EXT_ENTITLEMENTS),
      console := console w @ [Banner, Created appEntPath, Created extEntPath]\<rparr>"
  have e: "pathExists ?w0 PBXPROJ_PATH"
    using assms(1) by (simp add: pathExists_def console_log_def)
  have c: "createEntitlementsFiles ?w0 = Returned (appEntPath, extEntPath) ?w1"
    using assms(3,4) paths_distinct
    by (simp add: createEntitlementsFiles_def writeFile_def console_log_def)
  have "\<exists>e w'. updatePbxproj ?w1 = Threw e w'"
    using assms(1,2,5) paths_distinct
    by (simp add: updatePbxproj_def readFile_def writeFile_def console_log_def split_beta
        generateUUID_fields)
  then obtain e' w' where u: "updatePbxproj ?w1 = Threw e' w'" by blast
  show ?thesis
    using e by (simp add: main_def Let_def c u)
qed

theorem missing_descriptor_exits_1_witness:
  "files zero_world PBXPROJ_PATH = None
   \<and> (fst (main zero_world) = 1 \<and> files (snd (main zero_world)) = files zero_world)"
proof -
  have h: "files zero_world PBXPROJ_PATH = None" by (simp add: zero_world_def)
  from h missing_descriptor_exits_1 [OF h] show ?thesis by (rule conjI)
qed

lemma plain_world_run: "fst (main plain_world) = 0"
  by (rule main_ok(1) [where b = "utf8_encode plain_descriptor"]) (simp_all add: plain_world_def)

theorem successful_run_entitlements_witness:
  "fst (main plain_world) = 0
   \<and> (files (snd (main plain_world)) appEntPath = Some (utf8_encode APP_ENTITLEMENTS)
       \<and> files (snd (main plain_world)) extEntPath = Some (utf8_encode EXT_ENTITLEMENTS)
       \<and> utf8_decode (utf8_encode APP_ENTITLEMENTS) = APP_ENTITLEMENTS
       \<and> utf8_decode (utf8_encode EXT_ENTITLEMENTS) = EXT_ENTITLEMENTS
       \<and> occurrences APP_ENTITLEMENTS APP_GROUP = 1
       \<and> occurrences EXT_ENTITLEMENTS APP_GROUP = 1)"
  using plain_world_run successful_run_entitlements [OF plain_world_run] by (rule conjI)

text \<open>
  C8, as amended: both documents are the same instance of the one template, with the same
  App Group identifier, so they are the same text; what differs is the path each is
  written to.
\<close>

theorem entitlement_documents_identical:
  "APP_ENTITLEMENTS = entitlements_template APP_GROUP
   \<and> EXT_ENTITLEMENTS = entitlements_template APP_GROUP
   \<and> appEntPath \<noteq> extEntPath"
  by (simp add: APP_ENTITLEMENTS_def EXT_ENTITLEMENTS_def entitlements_template_def paths)

text \<open>C8 as stated fails: there is no textual difference between the two documents.\<close>

theorem entitlement_documents_equal_counterexample:
  "APP_ENTITLEMENTS = EXT_ENTITLEMENTS"
  by (simp add: APP_ENTITLEMENTS_def EXT_ENTITLEMENTS_def)

text \<open>
  C10, as amended: a descriptor whose text holds neither the marker nor any of the five
  insertion anchors is written back as the UTF-8 encoding of the text that was decoded
  from it, the run reports the update and the success on the console, and the process
  exits with status 0. For a descriptor that is well-formed UTF-8 the bytes written are
  the bytes read. The write takes place: were the descriptor read-only, the same run
  would exit with status 1.
\<close>

theorem no_anchor_run_rewrites_reencoded:
  assumes "files w PBXPROJ_PATH = Some b"
    and "PBXPROJ_PATH \<notin> unreadable w"
    and "PBXPROJ_PATH \<notin> unwritable w" "appEntPath \<notin> unwritable w" "extEntPath \<notin> unwritable w"
    and "\<not> js_includes (utf8_decode b) marker"
    and "\<not> js_includes (utf8_decode b) fileRefEndMarker"
    and "\<not> rx_test appSettingPattern (utf8_decode b)" "\<not> rx_test extSettingPattern (utf8_decode b)"
    and "\<not> rx_test appGroupPattern (utf8_decode b)" "\<not> rx_test extGroupPattern (utf8_decode b)"
  shows "fst (main w) = 0
       \<and> files (snd (main w)) PBXPROJ_PATH = Some (utf8_encode (utf8_decode b))
       \<and> (utf8_valid b \<longrightarrow> files (snd (main w)) PBXPROJ_PATH = Some b)
       \<and> console (snd (main w)) =
           console w @ [Banner, Created appEntPath, Created extEntPath, Updated PBXPROJ_PATH,
             Completed, AppGroupIs APP_GROUP, NextSteps APP_GROUP]
       \<and> fst (main (w\<lparr>unwritable := insert PBXPROJ_PATH (unwritable w)\<rparr>)) = 1"
  using main_ok [OF assms(1-5)] assms(6) patch_content_no_anchor [OF assms(7-11)]
    main_read_only [OF assms(1,2,4,5,6)] utf8_round_trip [of b]
  by simp

lemma plain_descriptor_no_anchor:
  "\<not> js_includes plain_descriptor marker"
  "\<not> js_includes plain_descriptor fileRefEndMarker"
  "\<not> rx_test appSettingPattern plain_descriptor"
  "\<not> rx_test extSettingPattern plain_descriptor"
  "\<not> rx_test appGroupPattern plain_descriptor"
  "\<not> rx_test extGroupPattern plain_descriptor"
  by (simp_all del: Cons_prefix_Cons add: prefix_Cons_if plain_descriptor_def marker_def fileRefEndMarker_def
      appSettingPattern_def extSettingPattern_def appGroupPattern_def extGroupPattern_def js_def rx_exec_def)

lemma plain_descriptor_bytes:
  "utf8_decode (utf8_encode plain_descriptor) = plain_descriptor"
  "utf8_valid (utf8_encode plain_descriptor)"
proof -
  have a: "\<forall>c\<in>set plain_descriptor. c < 0x80"
    by (simp add: plain_descriptor_def js_def)
  then show "utf8_decode (utf8_encode plain_descriptor) = plain_descriptor"
    by (rule ascii_round_trip(2))
  from a have "\<forall>b\<in>set (map ucast plain_descriptor :: byte list). b < 0x80"
    by (simp add: ucast_ascii)
  then show "utf8_valid (utf8_encode plain_descriptor)"
    unfolding utf8_encode_ascii [OF a] by (rule utf8_valid_ascii)
qed

theorem no_anchor_run_rewrites_reencoded_witness:
  "(files plain_world PBXPROJ_PATH = Some (utf8_encode plain_descriptor)
    \<and> utf8_valid (utf8_encode plain_descriptor))
   \<and> fst (main plain_world) = 0
   \<and> files (snd (main plain_world)) PBXPROJ_PATH = Some (utf8_encode plain_descriptor)
   \<and> fst (main (plain_world\<lparr>unwritable := insert PBXPROJ_PATH (unwritable plain_world)\<rparr>)) = 1"
proof -
  have h: "files plain_world PBXPROJ_PATH = Some (utf8_encode plain_descriptor)"
    "PBXPROJ_PATH \<notin> unreadable plain_world"
    "PBXPROJ_PATH \<notin> unwritable plain_world" "appEntPath \<notin> unwritable plain_world"
    "extEntPath \<notin> unwritable plain_world"
    by (simp_all add: plain_world_def)
  have n: "\<not> js_includes (utf8_decode (utf8_encode plain_descriptor)) marker"
    "\<not> js_includes (utf8_decode (utf8_encode plain_descriptor)) fileRefEndMarker"
    "\<not> rx_test appSettingPattern (utf8_decode (utf8_encode plain_descriptor))"
    "\<not> rx_test extSettingPattern (utf8_decode (utf8_encode plain_descriptor))"
    "\<not> rx_test appGroupPattern (utf8_decode (utf8_encode plain_descriptor))"
    "\<not> rx_test extGroupPattern (utf8_decode (utf8_encode plain_descriptor))"
    unfolding plain_descriptor_bytes(1) by (rule plain_descriptor_no_anchor)+
  note t = no_anchor_run_rewrites_reencoded [OF h n]
  from t have 1: "fst (main plain_world) = 0" by (rule conjunct1)
  from t plain_descriptor_bytes(2)
  have 2: "files (snd (main plain_world)) PBXPROJ_PATH = Some (utf8_encode plain_descriptor)"
    by blast
  from t have 3: "fst (main (plain_world\<lparr>unwritable := insert PBXPROJ_PATH (unwritable plain_world)\<rparr>)) = 1"
    by blast
  from h(1) plain_descriptor_bytes(2) 1 2 3 show ?thesis by blast
qed

text \<open>
  C10 as stated fails: a descriptor that is not well-formed UTF-8 is not written back
  byte for byte. The bytes \<^verbatim>\<open>61 FF 62 C3 28 0A\<close> hold no marker and no anchor; the run exits
  with status 0 and leaves \<^verbatim>\<open>61 EF BF BD 62 EF BF BD 28 0A\<close>.
\<close>

theorem no_anchor_run_changes_bytes_counterexample:
  "files stray_bytes_world PBXPROJ_PATH = Some [0x61, 0xFF, 0x62, 0xC3, 0x28, 0x0A]
   \<and> fst (main stray_bytes_world) = 0
   \<and> files (snd (main stray_bytes_world)) PBXPROJ_PATH
       = Some [0x61, 0xEF, 0xBF, 0xBD, 0x62, 0xEF, 0xBF, 0xBD, 0x28, 0x0A]"
proof -
  have h: "files stray_bytes_world PBXPROJ_PATH = Some stray_bytes"
    "PBXPROJ_PATH \<notin> unreadable stray_bytes_world"
    "PBXPROJ_PATH \<notin> unwritable stray_bytes_world" "appEntPath \<notin> unwritable stray_bytes_world"
    "extEntPath \<notin> unwritable stray_bytes_world"
    by (simp_all add: stray_bytes_world_def)
  have d: "utf8_decode stray_bytes = [0x61, 0xFFFD, 0x62, 0xFFFD, 0x28, 0x0A]"
    by (simp add: stray_bytes_def utf8_decode.simps(2) cont_def)
  have e: "utf8_encode [0x61, 0xFFFD, 0x62, 0xFFFD, 0x28, 0x0A]
      = [0x61, 0xEF, 0xBF, 0xBD, 0x62, 0xEF, 0xBF, 0xBD, 0x28, 0x0A]"
    by (simp add: high_surrogate_def low_surrogate_def utf8_bytes_def)
  have n: "\<not> js_includes (utf8_decode stray_bytes) marker"
    "\<not> js_includes (utf8_decode stray_bytes) fileRefEndMarker"
    "\<not> rx_test appSettingPattern (utf8_decode stray_bytes)"
    "\<not> rx_test extSettingPattern (utf8_decode stray_bytes)"
    "\<not> rx_test appGroupPattern (utf8_decode stray_bytes)"
    "\<not> rx_test extGroupPattern (utf8_decode stray_bytes)"
    unfolding d
    by (simp_all del: Cons_prefix_Cons add: prefix_Cons_if marker_def fileRefEndMarker_def
      appSettingPattern_def extSettingPattern_def appGroupPattern_def extGroupPattern_def js_def rx_exec_def)
  from main_ok(2) [OF h] n(1) patch_content_no_anchor [OF n(2-6)]
  have "files (snd (main stray_bytes_world)) PBXPROJ_PATH
      = Some (utf8_encode (utf8_decode stray_bytes))" by simp
  then have "files (snd (main stray_bytes_world)) PBXPROJ_PATH
      = Some [0x61, 0xEF, 0xBF, 0xBD, 0x62, 0xEF, 0xBF, 0xBD, 0x28, 0x0A]"
    unfolding d e .
  with main_ok(1) [OF h] h(1) show ?thesis by (simp add: stray_bytes_def)
qed

end
